theory Spec2Isabelle
  imports Main
begin

unbundle bit_operations_syntax

section \<open>Go values\<close>

text \<open>
  A Go string is a sequence of bytes: \<^typ>\<open>string\<close>, a list of 8-bit characters.
  A byte is read as a number by \<^term>\<open>of_char\<close> and written back by
  \<^term>\<open>char_of\<close>, which keeps the low eight bits as a Go \<^verbatim>\<open>byte\<close> does.

  A Go call ends by returning or by panicking (an index or a slice bound out of range).
  A function of signature \<^verbatim>\<open>(T, error)\<close> that returns gives \<open>Inl err\<close> for a non-nil
  error and \<open>Inr v\<close> for a value with a nil error.
\<close>

datatype 'a go = Panic string | Return 'a

text \<open>
  The error values that occur in the handler: \<^verbatim>\<open>url.EscapeError\<close> (a string type),
  \<^verbatim>\<open>*errors.errorString\<close> (what \<^verbatim>\<open>fmt.Errorf\<close> builds from a format without
  \<^verbatim>\<open>%w\<close>; it also stands for a collaborator's error, opaque but for its message), and
  \<^verbatim>\<open>*fmt.wrapError\<close> (what \<^verbatim>\<open>fmt.Errorf\<close> builds from a format with one
  \<^verbatim>\<open>%w\<close>: the formatted message and the wrapped error).
\<close>

datatype error =
    EscapeError string
  | errorString string
  | wrapError string error

text \<open>
  The method \<^verbatim>\<open>Error()\<close>. \<^verbatim>\<open>EscapeError.Error\<close> is
  \<^verbatim>\<open>"invalid URL escape " + strconv.Quote(string(e))\<close>; \<^verbatim>\<open>strconv.Quote\<close> is
  library code outside the repository and is taken as the parameter \<open>quote\<close>.
\<close>

fun Error :: "(string \<Rightarrow> string) \<Rightarrow> error \<Rightarrow> string" where
  "Error quote (EscapeError e) = ''invalid URL escape '' @ quote e"
| "Error quote (errorString s) = s"
| "Error quote (wrapError msg err) = msg"

text \<open>\<^verbatim>\<open>errors.Unwrap\<close>: the wrapped error of a \<^verbatim>\<open>wrapError\<close>, nil for the others.\<close>

fun Unwrap :: "error \<Rightarrow> error option" where
  "Unwrap (wrapError msg err) = Some err"
| "Unwrap (EscapeError e) = None"
| "Unwrap (errorString s) = None"

text \<open>
  \<^verbatim>\<open>fmt.Errorf(prefix + "%w", err)\<close> and \<^verbatim>\<open>fmt.Errorf(prefix + "%s", err)\<close>, the two shapes
  of format the handler uses. Both verbs print \<^verbatim>\<open>err.Error()\<close>; only \<^verbatim>\<open>%w\<close> keeps
  the operand as the wrapped error.
\<close>

definition Errorf_w :: "(string \<Rightarrow> string) \<Rightarrow> string \<Rightarrow> error \<Rightarrow> error" where
  "Errorf_w quote prefix err = wrapError (prefix @ Error quote err) err"

definition Errorf_s :: "(string \<Rightarrow> string) \<Rightarrow> string \<Rightarrow> error \<Rightarrow> error" where
  "Errorf_s quote prefix err = errorString (prefix @ Error quote err)"

text \<open>
  The slice expression \<^verbatim>\<open>s[lo:hi]\<close> on a string: it panics unless
  \<open>0 \<le> lo \<le> hi \<le> len(s)\<close>.
\<close>

definition slice :: "string \<Rightarrow> int \<Rightarrow> int \<Rightarrow> string go" where
  "slice s lo hi =
     (if 0 \<le> lo \<and> lo \<le> hi \<and> hi \<le> int (length s)
      then Return (take (nat hi - nat lo) (drop (nat lo) s))
      else Panic ''slice bounds out of range'')"

text \<open>\<^verbatim>\<open>strings.HasPrefix\<close>: \<^verbatim>\<open>len(s) >= len(prefix) && s[:len(prefix)] == prefix\<close>.\<close>

definition HasPrefix :: "string \<Rightarrow> string \<Rightarrow> bool" where
  "HasPrefix s prefix = (length prefix \<le> length s \<and> take (length prefix) s = prefix)"

section \<open>Key codec: deriving the destination key\<close>

text \<open>
  \<^verbatim>\<open>os.IsPathSeparator\<close> on the platform the handler is built for (Linux):
  the separator is the slash.
\<close>

definition IsPathSeparator :: "char \<Rightarrow> bool" where
  "IsPathSeparator c = (c = CHR ''/'')"

text \<open>
  \<^verbatim>\<open>filepath.Ext\<close>:
  \<^verbatim>\<open>for i := len(path) - 1; i >= 0 && !os.IsPathSeparator(path[i]); i-- {
       if path[i] == '.' { return path[i:] } }
   return ""\<close>
  \<open>Ext_loop path k\<close> is the loop entered with \<open>i = k - 1\<close>; it reads \<open>path\<close> only below
  \<open>k\<close>, so it is in range when \<open>k \<le> length path\<close>.
\<close>

primrec Ext_loop :: "string \<Rightarrow> nat \<Rightarrow> string" where
  "Ext_loop path 0 = ''''"
| "Ext_loop path (Suc i) =
     (if IsPathSeparator (path ! i) then ''''
      else if path ! i = CHR ''.'' then drop i path
      else Ext_loop path i)"

definition Ext :: "string \<Rightarrow> string" where
  "Ext path = Ext_loop path (length path)"

text \<open>
  \<^verbatim>\<open>replaceExtension\<close> (main.go, lines 150-156). The slice
  \<^verbatim>\<open>key[0:len(key)-len(ext)]\<close> is the one place where it could panic.
\<close>

definition replaceExtension :: "string \<Rightarrow> string \<Rightarrow> string go" where
  "replaceExtension key newExt =
     (let ext = Ext key in
      if ext = '''' then Return (key @ newExt)
      else (case slice key 0 (int (length key) - int (length ext)) of
              Panic p \<Rightarrow> Panic p
            | Return stem \<Rightarrow> Return (stem @ newExt)))"

text \<open>The last slash-separated segment of a key, and whether a key ends in a given suffix.\<close>

definition lastSegment :: "string \<Rightarrow> string" where
  "lastSegment key = rev (takeWhile (\<lambda>c. c \<noteq> CHR ''/'') (rev key))"

definition HasSuffix :: "string \<Rightarrow> string \<Rightarrow> bool" where
  "HasSuffix s suffix =
     (length suffix \<le> length s \<and> drop (length s - length suffix) s = suffix)"

section \<open>Key codec: percent decoding\<close>

text \<open>
  \<^verbatim>\<open>net/url\<close>'s \<^verbatim>\<open>ishex\<close> and \<^verbatim>\<open>unhex\<close>, on the byte's number. \<^verbatim>\<open>unhex\<close> is only
  called on bytes that \<^verbatim>\<open>ishex\<close> accepted; its last case is never reached.
\<close>

definition ishex :: "char \<Rightarrow> bool" where
  "ishex c =
     (let b = (of_char c :: nat) in
      (48 \<le> b \<and> b \<le> 57) \<or> (97 \<le> b \<and> b \<le> 102) \<or> (65 \<le> b \<and> b \<le> 70))"

definition unhex :: "char \<Rightarrow> nat" where
  "unhex c =
     (let b = (of_char c :: nat) in
      if 48 \<le> b \<and> b \<le> 57 then b - 48
      else if 97 \<le> b \<and> b \<le> 102 then b - 97 + 10
      else if 65 \<le> b \<and> b \<le> 70 then b - 65 + 10
      else 0)"

text \<open>
  \<^verbatim>\<open>unescape(s, encodeQueryComponent)\<close>, first loop: it checks that every \<^verbatim>\<open>%\<close> is
  followed by two hex digits, counts the escapes in \<open>n\<close> and records a \<^verbatim>\<open>+\<close> in
  \<open>hasPlus\<close>. A malformed escape returns \<^verbatim>\<open>EscapeError\<close> of at most three bytes from
  the \<^verbatim>\<open>%\<close> on. The argument is the rest of the string from index \<open>i\<close>.
\<close>

fun unescape_scan :: "string \<Rightarrow> nat \<Rightarrow> bool \<Rightarrow> error + (nat \<times> bool)" where
  "unescape_scan [] n hasPlus = Inr (n, hasPlus)"
| "unescape_scan (c # s) n hasPlus =
     (if c = CHR ''%'' then
        (case s of
           a # b # rest \<Rightarrow>
             if ishex a \<and> ishex b then unescape_scan rest (n + 1) hasPlus
             else Inl (EscapeError (take 3 (c # s)))
         | _ \<Rightarrow> Inl (EscapeError (take 3 (c # s))))
      else if c = CHR ''+'' then unescape_scan s n True
      else unescape_scan s n hasPlus)"

text \<open>
  Second loop: it writes the decoded bytes. \<^verbatim>\<open>unhex(s[i+1])<<4 | unhex(s[i+2])\<close> is
  byte arithmetic; reading \<^verbatim>\<open>s[i+1]\<close> or \<^verbatim>\<open>s[i+2]\<close> past the end would panic.
\<close>

fun unescape_build :: "string \<Rightarrow> string go" where
  "unescape_build [] = Return []"
| "unescape_build (c # s) =
     (if c = CHR ''%'' then
        (case s of
           a # b # rest \<Rightarrow>
             (case unescape_build rest of
                Panic p \<Rightarrow> Panic p
              | Return t \<Rightarrow> Return (char_of (push_bit 4 (unhex a) OR unhex b) # t))
         | _ \<Rightarrow> Panic ''index out of range'')
      else
        (case unescape_build s of
           Panic p \<Rightarrow> Panic p
         | Return t \<Rightarrow> Return ((if c = CHR ''+'' then CHR '' '' else c) # t)))"

text \<open>
  \<^verbatim>\<open>url.QueryUnescape\<close>: the string itself when the first loop found neither an
  escape nor a plus, the rebuilt string otherwise.
\<close>

definition QueryUnescape :: "string \<Rightarrow> (error + string) go" where
  "QueryUnescape s =
     (case unescape_scan s 0 False of
        Inl err \<Rightarrow> Return (Inl err)
      | Inr (n, hasPlus) \<Rightarrow>
          if n = 0 \<and> \<not> hasPlus then Return (Inr s)
          else (case unescape_build s of
                  Panic p \<Rightarrow> Panic p
                | Return t \<Rightarrow> Return (Inr t)))"

text \<open>
  The encoder \<^verbatim>\<open>url.QueryUnescape\<close> inverts, \<^verbatim>\<open>url.QueryEscape\<close>, which is
  \<^verbatim>\<open>escape(s, encodeQueryComponent)\<close>: letters, digits and \<^verbatim>\<open>- _ . ~\<close> stay, a space
  becomes \<^verbatim>\<open>+\<close>, every other byte becomes \<^verbatim>\<open>%\<close> and two upper-case hex digits
  (\<^verbatim>\<open>upperhex[c>>4]\<close>, \<^verbatim>\<open>upperhex[c&15]\<close>). It returns the string itself when its
  first loop counted no byte to escape.
\<close>

definition shouldEscape :: "char \<Rightarrow> bool" where
  "shouldEscape c =
     (let b = (of_char c :: nat) in
      if (97 \<le> b \<and> b \<le> 122) \<or> (65 \<le> b \<and> b \<le> 90) \<or> (48 \<le> b \<and> b \<le> 57) then False
      else if c = CHR ''-'' \<or> c = CHR ''_'' \<or> c = CHR ''.'' \<or> c = CHR ''~'' then False
      else True)"

definition upperhex :: string where
  "upperhex = ''0123456789ABCDEF''"

definition escape_byte :: "char \<Rightarrow> string" where
  "escape_byte c =
     (if c = CHR '' '' then ''+''
      else if shouldEscape c then
        [CHR ''%'', upperhex ! drop_bit 4 (of_char c :: nat), upperhex ! ((of_char c :: nat) AND 15)]
      else [c])"

definition QueryEscape :: "string \<Rightarrow> string" where
  "QueryEscape s =
     (let spaceCount = length (filter (\<lambda>c. shouldEscape c \<and> c = CHR '' '') s);
          hexCount = length (filter (\<lambda>c. shouldEscape c \<and> c \<noteq> CHR '' '') s)
      in if spaceCount = 0 \<and> hexCount = 0 then s else concat (map escape_byte s))"

text \<open>
  Percent-encoded forms in general, whatever the encoder: \<open>enc\<close> is an encoded form of
  \<open>key\<close> when each byte of the key is written as itself (never a percent or a plus
  sign), as a plus sign when it is a space, or as a percent sign and two hex digits, of
  either case, that denote it. Encoders differ in which bytes they leave as they are.
\<close>

fun percent_encoded :: "string \<Rightarrow> string \<Rightarrow> bool" where
  "percent_encoded [] enc = (enc = [])"
| "percent_encoded (c # key) enc =
     (case enc of
        [] \<Rightarrow> False
      | e # enc' \<Rightarrow>
          (e = c \<and> c \<noteq> CHR ''%'' \<and> c \<noteq> CHR ''+'' \<and> percent_encoded key enc') \<or>
          (e = CHR ''+'' \<and> c = CHR '' '' \<and> percent_encoded key enc') \<or>
          (e = CHR ''%'' \<and>
             (case enc' of
                h # l # enc'' \<Rightarrow>
                  ishex h \<and> ishex l \<and> char_of (push_bit 4 (unhex h) OR unhex l) = c \<and>
                  percent_encoded key enc''
              | _ \<Rightarrow> False)))"

section \<open>The handler and its collaborators\<close>

record S3Event =
  S3Bucket :: string
  S3Key :: string

record ConversionResult =
  Status :: string
  OriginalKey :: string
  NewKey :: string
  Message :: string

text \<open>The encoder options the handler sets (the fields it leaves out keep their zero value).\<close>

datatype Subsample = SubsampleAuto | SubsampleOn | SubsampleOff

datatype HeifCompression =
  HeifCompressionHevc | HeifCompressionAvc | HeifCompressionJpeg | HeifCompressionAv1

datatype HeifEncoder =
  HeifEncoderAuto | HeifEncoderAom | HeifEncoderRav1e | HeifEncoderSvt | HeifEncoderX265

record HeifsaveBufferOptions =
  Q :: int
  Bitdepth :: int
  Lossless :: bool
  SubsampleMode :: Subsample
  Compression :: HeifCompression
  Encoder :: HeifEncoder

record PutObjectInput =
  Bucket :: string
  Key :: string
  Body :: string
  ContentType :: string
  ContentLength :: int
  ChecksumAlgorithm :: string

text \<open>
  The storage service as the handler sees it: the objects, by bucket and key, and the
  upload requests issued so far, oldest first.
\<close>

record object =
  content :: string
  contentType :: string

record S3 =
  objects :: "string \<times> string \<rightharpoonup> object"
  uploads :: "PutObjectInput list"

text \<open>
  What the handler does not decide is a parameter: whether a storage call fails in
  transport (\<open>getFault\<close>, \<open>readFault\<close>, \<open>putFault\<close>; \<open>None\<close> is no failure), and the image
  codec (\<^verbatim>\<open>vips.NewImageFromBuffer\<close>, \<^verbatim>\<open>Image.GetString\<close>, \<^verbatim>\<open>Image.HeifsaveBuffer\<close>) over a
  type \<open>'img\<close> of image handles. \<open>Quote\<close> is \<^verbatim>\<open>strconv.Quote\<close>.
\<close>

record 'img collaborators =
  Quote :: "string \<Rightarrow> string"
  getFault :: "string \<Rightarrow> string \<Rightarrow> error option"
  readFault :: "string \<Rightarrow> string \<Rightarrow> error option"
  NewImageFromBuffer :: "string \<Rightarrow> error + 'img"
  GetString :: "'img \<Rightarrow> string \<Rightarrow> error + string"
  HeifsaveBuffer :: "'img \<Rightarrow> HeifsaveBufferOptions \<Rightarrow> error + string"
  putFault :: "PutObjectInput \<Rightarrow> error option"

text \<open>
  \<^verbatim>\<open>s3Client.GetObject\<close>: an error when the transport fails or no object is stored under
  the key; otherwise the body, a stream. A stream is modelled by what reading it to the
  end gives: an error or all its bytes. \<^verbatim>\<open>io.ReadAll\<close> returns just that.
\<close>

type_synonym stream = "error + string"

definition GetObject :: "'img collaborators \<Rightarrow> S3 \<Rightarrow> string \<Rightarrow> string \<Rightarrow> error + stream" where
  "GetObject c st bucket key =
     (case getFault c bucket key of
        Some err \<Rightarrow> Inl err
      | None \<Rightarrow>
          (case objects st (bucket, key) of
             None \<Rightarrow> Inl (errorString ''NoSuchKey'')
           | Some obj \<Rightarrow>
               Inr (case readFault c bucket key of
                      Some err \<Rightarrow> Inl err
                    | None \<Rightarrow> Inr (content obj))))"

definition ReadAll :: "stream \<Rightarrow> error + string" where
  "ReadAll body = body"

text \<open>
  \<^verbatim>\<open>s3Client.PutObject\<close>: the request is recorded; unless the transport fails, the object
  under the request's bucket and key becomes the request's body and content type,
  whether or not an object was stored there before.
\<close>

definition PutObject :: "'img collaborators \<Rightarrow> S3 \<Rightarrow> PutObjectInput \<Rightarrow> error option \<times> S3" where
  "PutObject c st input =
     (case putFault c input of
        Some err \<Rightarrow> (Some err, st\<lparr>uploads := uploads st @ [input]\<rparr>)
      | None \<Rightarrow>
          (None,
           st\<lparr>objects := (objects st)((Bucket input, Key input) \<mapsto>
                  \<lparr>content = Body input, contentType = ContentType input\<rparr>),
              uploads := uploads st @ [input]\<rparr>))"

text \<open>
  The request the handler uploads (main.go, lines 125-134): the event's bucket, the
  derived key, the encoded bytes, and their length as \<^verbatim>\<open>int64(len(avifBuffer))\<close>.
\<close>

definition uploadRequest :: "S3Event \<Rightarrow> string \<Rightarrow> string \<Rightarrow> PutObjectInput" where
  "uploadRequest event newKey avifBuffer =
     \<lparr>Bucket = S3Bucket event, Key = newKey, Body = avifBuffer,
      ContentType = ''image/avif'', ContentLength = int (length avifBuffer),
      ChecksumAlgorithm = ''SHA256''\<rparr>"

definition options :: HeifsaveBufferOptions where
  "options =
     \<lparr>Q = 50, Bitdepth = 10, Lossless = False, SubsampleMode = SubsampleAuto,
      Compression = HeifCompressionAv1, Encoder = HeifEncoderSvt\<rparr>"

text \<open>
  \<^verbatim>\<open>HandleRequest\<close> (main.go, lines 50-144), with the storage state passed in and
  returned. The log lines and the deferred \<^verbatim>\<open>Close\<close> calls change neither the result
  nor the stored objects and are left out. When \<^verbatim>\<open>GetString\<close> fails the source only
  logs a warning and goes on to encode, as it does for a loader name without the prefix.
\<close>

definition HandleRequest ::
  "'img collaborators \<Rightarrow> S3 \<Rightarrow> S3Event \<Rightarrow> (error + ConversionResult) go \<times> S3" where
  "HandleRequest c st event =
     (case QueryUnescape (S3Key event) of
        Panic p \<Rightarrow> (Panic p, st)
      | Return (Inl err) \<Rightarrow>
          (Return (Inl (Errorf_w (Quote c) ''failed to decode S3 key: '' err)), st)
      | Return (Inr srcKey) \<Rightarrow>
     (case GetObject c st (S3Bucket event) srcKey of
        Inl err \<Rightarrow>
          (Return (Inl (Errorf_w (Quote c) ''failed to get object from S3: '' err)), st)
      | Inr s3Object_Body \<Rightarrow>
     (case ReadAll s3Object_Body of
        Inl err \<Rightarrow>
          (Return (Inl (Errorf_w (Quote c) ''failed to read image from S3 stream: '' err)), st)
      | Inr imageBuffer \<Rightarrow>
     (case NewImageFromBuffer c imageBuffer of
        Inl err \<Rightarrow>
          (Return (Inl (Errorf_w (Quote c)
             ''failed to process image with vips from buffer: '' err)), st)
      | Inr img \<Rightarrow>
     (if (case GetString c img ''vips-loader'' of
            Inl err \<Rightarrow> False
          | Inr format \<Rightarrow> HasPrefix format ''heifload'')
      then
        (Return (Inr \<lparr>Status = ''SKIPPED_ALREADY_AVIF'', OriginalKey = srcKey, NewKey = '''',
                      Message = ''Image is already in AVIF format. Skipping conversion.''\<rparr>),
         st)
      else
     (case HeifsaveBuffer c img options of
        Inl err \<Rightarrow>
          (Return (Inl (Errorf_s (Quote c)
             ''failed to encode image to AVIF: vips_error: '' err)), st)
      | Inr avifBuffer \<Rightarrow>
     (case replaceExtension srcKey ''.avif'' of
        Panic p \<Rightarrow> (Panic p, st)
      | Return newKey \<Rightarrow>
     (case PutObject c st (uploadRequest event newKey avifBuffer) of
        (Some err, st') \<Rightarrow>
          (Return (Inl (Errorf_w (Quote c) ''failed to upload AVIF image to S3: '' err)), st')
      | (None, st') \<Rightarrow>
          (Return (Inr \<lparr>Status = ''CONVERTED'', OriginalKey = srcKey, NewKey = newKey,
                        Message = ''''\<rparr>), st')))))))))"

subsection \<open>A concrete set of collaborators\<close>

text \<open>
  A small codec and store on which the handler can be run: an image handle is the
  buffer itself; a buffer that starts with \<open>ftypavif\<close> is loaded by the HEIF loader, one
  that starts with \<open>RAW\<close> has no loader field, one that starts with \<open>BAD\<close> cannot be
  encoded; uploads to the bucket \<open>readonly\<close> fail. The object \<open>new.avif\<close> is a JPEG
  stored under a name that ends in \<open>.avif\<close>.
\<close>

definition demo :: "string collaborators" where
  "demo =
     \<lparr>Quote = (\<lambda>s. [CHR 0x22] @ s @ [CHR 0x22]),
      getFault = (\<lambda>bucket key. None),
      readFault = (\<lambda>bucket key. None),
      NewImageFromBuffer =
        (\<lambda>buf. if buf = '''' then Inl (errorString ''empty buffer'') else Inr buf),
      GetString =
        (\<lambda>img name.
           if HasPrefix img ''ftypavif'' then Inr ''heifload_buffer''
           else if HasPrefix img ''RAW'' then Inl (errorString ''field not found'')
           else Inr ''jpegload_buffer''),
      HeifsaveBuffer =
        (\<lambda>img opts.
           if HasPrefix img ''BAD'' then Inl (errorString ''encoder failed'')
           else Inr (''ftypavif:'' @ img)),
      putFault =
        (\<lambda>input. if Bucket input = ''readonly'' then Some (errorString ''AccessDenied'')
                  else None)\<rparr>"

definition demoS3 :: S3 where
  "demoS3 =
     \<lparr>objects =
        [(''photos'', ''cat 1.jpg'') \<mapsto> \<lparr>content = ''JFIF-cat'', contentType = ''image/jpeg''\<rparr>,
         (''photos'', ''old.avif'') \<mapsto> \<lparr>content = ''ftypavif-old'', contentType = ''image/avif''\<rparr>,
         (''photos'', ''new.avif'') \<mapsto> \<lparr>content = ''JFIF-new'', contentType = ''image/avif''\<rparr>,
         (''photos'', ''scan.tif'') \<mapsto> \<lparr>content = ''RAW-scan'', contentType = ''image/tiff''\<rparr>,
         (''photos'', ''bad.png'') \<mapsto> \<lparr>content = ''BAD-png'', contentType = ''image/png''\<rparr>,
         (''readonly'', ''scan.tif'') \<mapsto> \<lparr>content = ''RAW-scan'', contentType = ''image/tiff''\<rparr>],
      uploads = []\<rparr>"

section \<open>Properties of the key codec\<close>

subsection \<open>The extension loop\<close>

lemma Ext_Nil: "Ext '''' = ''''"
  by (simp add: Ext_def)

lemma Ext_loop_last:
  "Ext_loop (xs @ x # ys) (Suc (length xs)) =
     (if x = CHR ''/'' then '''' else if x = CHR ''.'' then x # ys
      else Ext_loop (xs @ x # ys) (length xs))"
  by (simp add: IsPathSeparator_def)

lemma Ext_loop_append:
  "k \<le> length xs \<Longrightarrow>
     Ext_loop (xs @ ys) k = (if Ext_loop xs k = [] then [] else Ext_loop xs k @ ys)"
  by (induction k) (auto simp: nth_append)

lemma Ext_snoc:
  "Ext (xs @ [x]) =
     (if x = CHR ''/'' then '''' else if x = CHR ''.'' then [x]
      else if Ext xs = [] then [] else Ext xs @ [x])"
  using Ext_loop_last [of xs x "[]"] Ext_loop_append [of "length xs" xs "[x]"]
  by (simp add: Ext_def)

text \<open>The loop returns the empty string or a suffix of the path that starts at a dot.\<close>

lemma Ext_loop_cases:
  "k \<le> length path \<Longrightarrow>
     Ext_loop path k = [] \<or> (\<exists>i<k. Ext_loop path k = drop i path)"
  by (induction k) (auto simp: less_Suc_eq)

text \<open>
  So the bounds of the slice in \<open>replaceExtension\<close> are always in range, and the slice is
  the key without its extension.
\<close>

lemma Ext_slice:
  "\<exists>stem. key = stem @ Ext key \<and>
     slice key 0 (int (length key) - int (length (Ext key))) = Return stem"
proof -
  have "Ext key = [] \<or> (\<exists>i<length key. Ext key = drop i key)"
    unfolding Ext_def using Ext_loop_cases [of "length key" key] by simp
  then show ?thesis
  proof
    assume "Ext key = []"
    then show ?thesis by (simp add: slice_def)
  next
    assume "\<exists>i<length key. Ext key = drop i key"
    then obtain i where i: "i < length key" "Ext key = drop i key" by blast
    then have "key = take i key @ Ext key" by simp
    moreover have "slice key 0 (int (length key) - int (length (Ext key))) = Return (take i key)"
      using i by (simp add: slice_def)
    ultimately show ?thesis by blast
  qed
qed

lemma replaceExtension_stem:
  "Ext (stem @ ext) = ext \<Longrightarrow> replaceExtension (stem @ ext) newExt = Return (stem @ newExt)"
  by (cases "ext = []") (simp_all add: replaceExtension_def slice_def)

lemma HasSuffix_iff: "HasSuffix s suffix \<longleftrightarrow> (\<exists>stem. s = stem @ suffix)"
  unfolding HasSuffix_def
  by (metis append_eq_conv_conj append_take_drop_id diff_add_inverse2 le_add2 length_append)

lemma Ext_no_dot: "CHR ''.'' \<notin> set (lastSegment key) \<Longrightarrow> Ext key = []"
proof (induction key rule: rev_induct)
  case Nil
  show ?case by (rule Ext_Nil)
next
  case (snoc x xs)
  then show ?case by (auto simp: Ext_snoc lastSegment_def)
qed

lemma Ext_dot: "Ext (stem @ ''.'') = ''.''"
  by (simp add: Ext_snoc)

lemma Ext_avif: "Ext (stem @ ''.avif'') = ''.avif''"
  using Ext_snoc [of "stem @ ''.avi''" "CHR ''f''"]
    Ext_snoc [of "stem @ ''.av''" "CHR ''i''"]
    Ext_snoc [of "stem @ ''.a''" "CHR ''v''"]
    Ext_snoc [of "stem @ ''.''" "CHR ''a''"]
    Ext_snoc [of "stem" "CHR ''.''"]
  by simp

lemma replaceExtension_avif:
  "HasSuffix key ''.avif'' \<Longrightarrow> replaceExtension key ''.avif'' = Return key"
  using replaceExtension_stem [OF Ext_avif] by (auto simp: HasSuffix_iff)

lemma replaceExtension_returns: "\<exists>newKey. replaceExtension key newExt = Return newKey"
  using Ext_slice [of key] by (auto simp: replaceExtension_def Let_def)

subsection \<open>Deriving the destination key\<close>

text \<open>
  Claim C6. Deriving the destination key is a function of the key and the extension
  alone, and it always returns: the slice it takes never panics. On the four keys of the
  specification it gives \<open>a/b/photo.avif\<close> for \<open>a/b/photo.jpg\<close> and for \<open>a/b/photo\<close>,
  \<open>a.b.avif\<close> for \<open>a.b.jpg\<close>, and \<open>noext.avif\<close> for \<open>noext.\<close>.
\<close>

theorem replaceExtension_total_and_examples:
  "(\<exists>newKey. replaceExtension key newExt = Return newKey) \<and>
   replaceExtension ''a/b/photo.jpg'' ''.avif'' = Return ''a/b/photo.avif'' \<and>
   replaceExtension ''a/b/photo'' ''.avif'' = Return ''a/b/photo.avif'' \<and>
   replaceExtension ''a.b.jpg'' ''.avif'' = Return ''a.b.avif'' \<and>
   replaceExtension ''noext.'' ''.avif'' = Return ''noext.avif''"
proof -
  have "replaceExtension ''a/b/photo.jpg'' ''.avif'' = Return ''a/b/photo.avif''"
    by (simp add: replaceExtension_def Ext_def IsPathSeparator_def slice_def)
  moreover have "replaceExtension ''a/b/photo'' ''.avif'' = Return ''a/b/photo.avif''"
    by (simp add: replaceExtension_def Ext_def IsPathSeparator_def slice_def)
  moreover have "replaceExtension ''a.b.jpg'' ''.avif'' = Return ''a.b.avif''"
    by (simp add: replaceExtension_def Ext_def IsPathSeparator_def slice_def)
  moreover have "replaceExtension ''noext.'' ''.avif'' = Return ''noext.avif''"
    by (simp add: replaceExtension_def Ext_def IsPathSeparator_def slice_def)
  ultimately show ?thesis
    using replaceExtension_returns [of key newExt] by simp
qed

text \<open>
  Claim C7, as amended. A key that ends in a dot does not have an empty extension: its
  extension is that dot. The dot is removed with it, so the derived key is the key
  without its last byte, followed by the new extension; the dot of the key is not kept
  in front of the appended extension.
\<close>

theorem replaceExtension_trailing_dot:
  "HasSuffix key ''.'' \<Longrightarrow>
     Ext key = ''.'' \<and> replaceExtension key newExt = Return (butlast key @ newExt)"
  using replaceExtension_stem [OF Ext_dot] by (auto simp: HasSuffix_iff Ext_dot)

theorem replaceExtension_trailing_dot_witness:
  "HasSuffix ''noext.'' ''.'' \<and> Ext ''noext.'' = ''.'' \<and>
   replaceExtension ''noext.'' ''.avif'' = Return ''noext.avif''"
proof -
  have h: "HasSuffix ''noext.'' ''.''" by (simp add: HasSuffix_def)
  show ?thesis
    using h replaceExtension_trailing_dot [OF h, of "''.avif''"] by simp
qed

text \<open>
  The claim as the specification words it fails on \<open>noext.\<close>: the extension found is not
  empty, and the derived key is not the key followed by the new extension.
\<close>

theorem replaceExtension_trailing_dot_counterexample:
  "HasSuffix ''noext.'' ''.'' \<and> Ext ''noext.'' \<noteq> '''' \<and>
   replaceExtension ''noext.'' ''.avif'' \<noteq> Return (''noext.'' @ ''.avif'')"
  by (simp add: HasSuffix_def replaceExtension_def Ext_def IsPathSeparator_def slice_def)

text \<open>
  Claim C10. Only the last slash-separated segment of a key is searched for an
  extension: when that segment has no dot, the new extension is appended to the whole
  key, whatever dots the earlier segments have.
\<close>

theorem replaceExtension_last_segment:
  "CHR ''.'' \<notin> set (lastSegment key) \<Longrightarrow> replaceExtension key newExt = Return (key @ newExt)"
  by (simp add: replaceExtension_def Ext_no_dot)

theorem replaceExtension_last_segment_witness:
  "CHR ''.'' \<notin> set (lastSegment ''a.b/c'') \<and>
   replaceExtension ''a.b/c'' ''.avif'' = Return ''a.b/c.avif''"
proof -
  have h: "CHR ''.'' \<notin> set (lastSegment ''a.b/c'')" by (simp add: lastSegment_def)
  show ?thesis
    using h replaceExtension_last_segment [OF h, of "''.avif''"] by simp
qed

section \<open>Properties of percent decoding\<close>

subsection \<open>Hex digits and bytes\<close>

lemma less_16_cases:
  "(k::nat) < 16 \<Longrightarrow>
     k = 0 \<or> k = 1 \<or> k = 2 \<or> k = 3 \<or> k = 4 \<or> k = 5 \<or> k = 6 \<or> k = 7 \<or>
     k = 8 \<or> k = 9 \<or> k = 10 \<or> k = 11 \<or> k = 12 \<or> k = 13 \<or> k = 14 \<or> k = 15"
  by arith

lemma upperhex_nth: "k < 16 \<Longrightarrow> ishex (upperhex ! k) \<and> unhex (upperhex ! k) = k"
  by (drule less_16_cases) (elim disjE; simp add: upperhex_def ishex_def unhex_def)

lemma high_nibble: "drop_bit 4 (of_char c :: nat) < 16"
proof -
  have "(of_char c :: nat) < 256" by simp
  then have "(of_char c :: nat) div 16 < 16" by arith
  then show ?thesis by (simp add: drop_bit_eq_div)
qed

lemma and_15: "(n::nat) AND 15 = take_bit 4 n"
  by (simp add: take_bit_eq_mask mask_eq_exp_minus_1)

lemma low_nibble: "(of_char c :: nat) AND 15 < 16"
  unfolding and_15 by (simp add: take_bit_eq_mod)

lemma nibbles_join: "push_bit 4 (drop_bit 4 n) OR take_bit 4 n = (n::nat)"
  by (rule bit_eqI) (auto simp: bit_simps)

lemma byte_of_nibbles:
  "char_of (push_bit 4 (drop_bit 4 (of_char c :: nat)) OR (of_char c AND 15)) = c"
  by (simp add: and_15 nibbles_join)

lemma shouldEscape_special:
  "shouldEscape (CHR ''%'')" "shouldEscape (CHR ''+'')" "shouldEscape (CHR '' '')"
  by (simp_all add: shouldEscape_def)

lemma not_shouldEscape:
  "\<not> shouldEscape c \<Longrightarrow> c \<noteq> CHR ''%'' \<and> c \<noteq> CHR ''+'' \<and> c \<noteq> CHR '' ''"
  using shouldEscape_special by blast

subsection \<open>Strings without escapes\<close>

lemma unescape_scan_plain:
  "CHR ''%'' \<notin> set s \<Longrightarrow> CHR ''+'' \<notin> set s \<Longrightarrow> unescape_scan s n hp = Inr (n, hp)"
  by (induction s) auto

lemma unescape_build_plain:
  "CHR ''%'' \<notin> set s \<Longrightarrow> CHR ''+'' \<notin> set s \<Longrightarrow> unescape_build s = Return s"
  by (induction s) auto

text \<open>
  The first loop leaves its counters as they were exactly when the string has neither a
  percent sign nor a plus.
\<close>

lemma unescape_scan_counters:
  "unescape_scan s n hp = Inr (n', hp') \<Longrightarrow>
     n \<le> n' \<and> (hp' \<or> \<not> hp) \<and>
     ((n' = n \<and> \<not> hp') = (CHR ''%'' \<notin> set s \<and> CHR ''+'' \<notin> set s \<and> \<not> hp))"
proof (induction s n hp rule: unescape_scan.induct)
  case (1 n hasPlus)
  then show ?case by auto
next
  case (2 c s n hasPlus)
  then show ?case by (auto split: if_splits list.splits)
qed

subsection \<open>Decoding an encoded string\<close>

text \<open>The three ways a byte of the key can be written, one at a time.\<close>

lemma percent_encoded_Cons_cases:
  assumes "percent_encoded (c # key) enc"
  obtains enc' where "enc = c # enc'" "c \<noteq> CHR ''%''" "c \<noteq> CHR ''+''"
      "percent_encoded key enc'"
  | enc' where "enc = CHR ''+'' # enc'" "c = CHR '' ''" "percent_encoded key enc'"
  | h l enc' where "enc = CHR ''%'' # h # l # enc'" "ishex h" "ishex l"
      "char_of (push_bit 4 (unhex h) OR unhex l) = c" "percent_encoded key enc'"
  using assms by (auto split: list.splits)

declare percent_encoded.simps(2) [simp del]

lemma percent_encoded_literal:
  "percent_encoded key enc \<Longrightarrow> c \<noteq> CHR ''%'' \<Longrightarrow> c \<noteq> CHR ''+'' \<Longrightarrow>
     percent_encoded (c # key) (c # enc)"
  by (simp add: percent_encoded.simps(2))

lemma percent_encoded_plus:
  "percent_encoded key enc \<Longrightarrow> percent_encoded (CHR '' '' # key) (CHR ''+'' # enc)"
  by (simp add: percent_encoded.simps(2))

lemma percent_encoded_hex:
  "percent_encoded key enc \<Longrightarrow> ishex h \<Longrightarrow> ishex l \<Longrightarrow>
     char_of (push_bit 4 (unhex h) OR unhex l) = c \<Longrightarrow>
     percent_encoded (c # key) (CHR ''%'' # h # l # enc)"
  by (simp add: percent_encoded.simps(2))

text \<open>On an encoded form the first loop finds no malformed escape.\<close>

lemma unescape_scan_percent_encoded:
  "percent_encoded key enc \<Longrightarrow> \<exists>r. unescape_scan enc n hp = Inr r"
proof (induction key arbitrary: enc n hp)
  case Nil
  then show ?case by simp
next
  case (Cons c key)
  from Cons.prems show ?case
  proof (cases rule: percent_encoded_Cons_cases)
    case (1 enc')
    then show ?thesis using Cons.IH [of enc' n hp] by simp
  next
    case (2 enc')
    then show ?thesis using Cons.IH [of enc' n True] by simp
  next
    case (3 h l enc')
    then show ?thesis using Cons.IH [of enc' "n + 1" hp] by simp
  qed
qed

text \<open>The second loop writes the key.\<close>

lemma unescape_build_percent_encoded:
  "percent_encoded key enc \<Longrightarrow> unescape_build enc = Return key"
proof (induction key arbitrary: enc)
  case Nil
  then show ?case by simp
next
  case (Cons c key)
  from Cons.prems show ?case
  proof (cases rule: percent_encoded_Cons_cases)
    case (1 enc')
    then show ?thesis using Cons.IH [of enc'] by simp
  next
    case (2 enc')
    then show ?thesis using Cons.IH [of enc'] by simp
  next
    case (3 h l enc')
    then show ?thesis using Cons.IH [of enc'] by simp
  qed
qed

text \<open>
  So decoding any encoded form of a key gives the key. When the first loop counted
  nothing the decoder returns its argument, which is then the key itself.
\<close>

lemma QueryUnescape_percent_encoded:
  assumes "percent_encoded key enc"
  shows "QueryUnescape enc = Return (Inr key)"
proof -
  obtain n hp where scan: "unescape_scan enc 0 False = Inr (n, hp)"
    using unescape_scan_percent_encoded [OF assms, of 0 False] by auto
  have build: "unescape_build enc = Return key"
    using assms by (rule unescape_build_percent_encoded)
  show ?thesis
  proof (cases "n = 0 \<and> \<not> hp")
    case True
    with unescape_scan_counters [OF scan]
    have "CHR ''%'' \<notin> set enc" "CHR ''+'' \<notin> set enc" by auto
    then have "unescape_build enc = Return enc" by (rule unescape_build_plain)
    with build have "enc = key" by simp
    with True scan show ?thesis by (simp add: QueryUnescape_def)
  next
    case False
    with scan build show ?thesis by (auto simp add: QueryUnescape_def)
  qed
qed

text \<open>What \<^verbatim>\<open>url.QueryEscape\<close> returns is such an encoded form.\<close>

lemma escape_byte_plain: "\<not> shouldEscape c \<Longrightarrow> escape_byte c = [c]"
  using not_shouldEscape [of c] by (simp add: escape_byte_def)

lemma concat_escape_plain:
  "\<forall>c\<in>set s. \<not> shouldEscape c \<Longrightarrow> concat (map escape_byte s) = s"
  by (induction s) (simp_all add: escape_byte_plain)

lemma QueryEscape_concat: "QueryEscape s = concat (map escape_byte s)"
proof (cases "\<forall>c\<in>set s. \<not> shouldEscape c")
  case True
  then have "concat (map escape_byte s) = s" by (rule concat_escape_plain)
  then show ?thesis by (simp add: QueryEscape_def Let_def)
next
  case False
  then obtain c where "c \<in> set s" "shouldEscape c" by blast
  then have "filter (\<lambda>c. shouldEscape c \<and> c = CHR '' '') s \<noteq> [] \<or>
      filter (\<lambda>c. shouldEscape c \<and> c \<noteq> CHR '' '') s \<noteq> []"
    by (auto simp: filter_empty_conv)
  then show ?thesis by (auto simp add: QueryEscape_def Let_def)
qed

lemma percent_encoded_escape_byte:
  assumes "percent_encoded key enc"
  shows "percent_encoded (c # key) (escape_byte c @ enc)"
proof (cases "c = CHR '' ''")
  case True
  then show ?thesis using percent_encoded_plus [OF assms] by (simp add: escape_byte_def)
next
  case False
  show ?thesis
  proof (cases "shouldEscape c")
    case True
    have "percent_encoded (c # key)
        (CHR ''%'' # upperhex ! drop_bit 4 (of_char c :: nat) #
         upperhex ! ((of_char c :: nat) AND 15) # enc)"
      using assms upperhex_nth [OF high_nibble [of c]] upperhex_nth [OF low_nibble [of c]]
        byte_of_nibbles [of c]
      by (intro percent_encoded_hex) simp_all
    with True False show ?thesis by (simp add: escape_byte_def)
  next
    case False
    then show ?thesis
      using percent_encoded_literal [OF assms, of c] not_shouldEscape [of c]
      by (simp add: escape_byte_def)
  qed
qed

lemma percent_encoded_QueryEscape: "percent_encoded key (QueryEscape key)"
  unfolding QueryEscape_concat
  by (induction key) (simp_all add: percent_encoded_escape_byte)

text \<open>
  An encoded form that \<^verbatim>\<open>url.QueryEscape\<close> does not produce (a star left as it is,
  lower-case hex digits) decodes to the key as well.
\<close>

lemma QueryUnescape_other_encoder:
  "QueryEscape ''my photo+1*.jpg'' = ''my+photo%2B1%2A.jpg'' \<and>
   percent_encoded ''my photo+1*.jpg'' ''my+photo%2b1*.jpg'' \<and>
   QueryUnescape ''my+photo%2b1*.jpg'' = Return (Inr ''my photo+1*.jpg'')"
proof -
  have 1: "QueryEscape ''my photo+1*.jpg'' = ''my+photo%2B1%2A.jpg''"
    by code_simp
  have 2: "percent_encoded ''my photo+1*.jpg'' ''my+photo%2b1*.jpg''"
    by code_simp
  show ?thesis
    using 1 2 QueryUnescape_percent_encoded [OF 2] by simp
qed

text \<open>
  The decoder never panics: a string that passed the first loop has two bytes after
  every percent sign.
\<close>

lemma unescape_build_after_scan:
  "unescape_scan s n hp = Inr r \<Longrightarrow> \<exists>t. unescape_build s = Return t"
proof (induction s n hp arbitrary: r rule: unescape_scan.induct)
  case (1 n hasPlus)
  show ?case by simp
next
  case (2 c s n hasPlus)
  then show ?case by (fastforce split: if_splits list.splits)
qed

lemma QueryUnescape_returns: "\<exists>r. QueryUnescape s = Return r"
proof (cases "unescape_scan s 0 False")
  case (Inl err)
  then show ?thesis by (simp add: QueryUnescape_def)
next
  case (Inr r)
  then show ?thesis
    using unescape_build_after_scan [OF Inr]
    by (cases r) (auto simp: QueryUnescape_def)
qed

text \<open>
  Claim C3. Decoding the percent-encoded form of a key gives the key back, for every
  key, with no error. The encoded form is the one \<^verbatim>\<open>url.QueryEscape\<close> produces, the
  encoder that \<^verbatim>\<open>url.QueryUnescape\<close>, the decoder the handler calls, is the inverse of.
\<close>

theorem QueryUnescape_QueryEscape: "QueryUnescape (QueryEscape key) = Return (Inr key)"
  using percent_encoded_QueryEscape by (rule QueryUnescape_percent_encoded)

text \<open>
  Claim C8, as amended. Decoding returns the key unchanged, with no error, for every key
  that has neither a percent sign nor a plus sign. A plus sign is decoded to a space, so
  a key with no percent escape at all can still be changed by the decode step.
\<close>

theorem QueryUnescape_literal:
  "CHR ''%'' \<notin> set key \<Longrightarrow> CHR ''+'' \<notin> set key \<Longrightarrow> QueryUnescape key = Return (Inr key)"
  by (simp add: QueryUnescape_def unescape_scan_plain)

theorem QueryUnescape_literal_witness:
  "CHR ''%'' \<notin> set ''photos/cat.jpg'' \<and> CHR ''+'' \<notin> set ''photos/cat.jpg'' \<and>
   QueryUnescape ''photos/cat.jpg'' = Return (Inr ''photos/cat.jpg'')"
proof -
  have h1: "CHR ''%'' \<notin> set ''photos/cat.jpg''" by simp
  have h2: "CHR ''+'' \<notin> set ''photos/cat.jpg''" by simp
  show ?thesis using h1 h2 QueryUnescape_literal [OF h1 h2] by simp
qed

text \<open>
  The key \<open>a+b\<close> contains no escape sequence, and decoding it changes it to \<open>a b\<close>.
\<close>

theorem QueryUnescape_literal_counterexample:
  "CHR ''%'' \<notin> set ''a+b'' \<and> QueryUnescape ''a+b'' = Return (Inr ''a b'') \<and>
   QueryUnescape ''a+b'' \<noteq> Return (Inr ''a+b'')"
  by (simp add: QueryUnescape_def)

section \<open>Properties of the handler\<close>

subsection \<open>The handler after each stage\<close>

text \<open>Once the key is decoded and the image is fetched, read and loaded.\<close>

lemma HandleRequest_loaded:
  assumes "QueryUnescape (S3Key event) = Return (Inr srcKey)"
    and "GetObject c st (S3Bucket event) srcKey = Inr body"
    and "ReadAll body = Inr imageBuffer"
    and "NewImageFromBuffer c imageBuffer = Inr img"
  shows "HandleRequest c st event =
     (if (case GetString c img ''vips-loader'' of
            Inl err \<Rightarrow> False
          | Inr format \<Rightarrow> HasPrefix format ''heifload'')
      then
        (Return (Inr \<lparr>Status = ''SKIPPED_ALREADY_AVIF'', OriginalKey = srcKey, NewKey = '''',
                      Message = ''Image is already in AVIF format. Skipping conversion.''\<rparr>),
         st)
      else
     (case HeifsaveBuffer c img options of
        Inl err \<Rightarrow>
          (Return (Inl (Errorf_s (Quote c)
             ''failed to encode image to AVIF: vips_error: '' err)), st)
      | Inr avifBuffer \<Rightarrow>
     (case replaceExtension srcKey ''.avif'' of
        Panic p \<Rightarrow> (Panic p, st)
      | Return newKey \<Rightarrow>
     (case PutObject c st (uploadRequest event newKey avifBuffer) of
        (Some err, st') \<Rightarrow>
          (Return (Inl (Errorf_w (Quote c) ''failed to upload AVIF image to S3: '' err)), st')
      | (None, st') \<Rightarrow>
          (Return (Inr \<lparr>Status = ''CONVERTED'', OriginalKey = srcKey, NewKey = newKey,
                        Message = ''''\<rparr>), st')))))"
  using assms by (simp add: HandleRequest_def)

text \<open>Once, in addition, the image is not skipped and is encoded.\<close>

lemma HandleRequest_encoded:
  assumes "QueryUnescape (S3Key event) = Return (Inr srcKey)"
    and "GetObject c st (S3Bucket event) srcKey = Inr body"
    and "ReadAll body = Inr imageBuffer"
    and "NewImageFromBuffer c imageBuffer = Inr img"
    and "\<And>format. GetString c img ''vips-loader'' = Inr format \<Longrightarrow>
           \<not> HasPrefix format ''heifload''"
    and "HeifsaveBuffer c img options = Inr avifBuffer"
    and "replaceExtension srcKey ''.avif'' = Return newKey"
  shows "HandleRequest c st event =
     (case putFault c (uploadRequest event newKey avifBuffer) of
        Some err \<Rightarrow>
          (Return (Inl (Errorf_w (Quote c) ''failed to upload AVIF image to S3: '' err)),
           st\<lparr>uploads := uploads st @ [uploadRequest event newKey avifBuffer]\<rparr>)
      | None \<Rightarrow>
          (Return (Inr \<lparr>Status = ''CONVERTED'', OriginalKey = srcKey, NewKey = newKey,
                        Message = ''''\<rparr>),
           st\<lparr>objects := (objects st)((S3Bucket event, newKey) \<mapsto>
                  \<lparr>content = avifBuffer, contentType = ''image/avif''\<rparr>),
              uploads := uploads st @ [uploadRequest event newKey avifBuffer]\<rparr>))"
proof -
  have "\<not> (case GetString c img ''vips-loader'' of
            Inl err \<Rightarrow> False
          | Inr format \<Rightarrow> HasPrefix format ''heifload'')"
    using assms(5) by (cases "GetString c img ''vips-loader''") simp_all
  then show ?thesis
    using assms(6,7)
    by (simp add: HandleRequest_loaded [OF assms(1-4)] PutObject_def uploadRequest_def
        split: option.split)
qed

lemma GetObject_stored:
  "GetObject c st bucket key = Inr body \<Longrightarrow> \<exists>obj. objects st (bucket, key) = Some obj"
  by (auto simp: GetObject_def split: option.splits)

lemmas demo_defs =
  HandleRequest_def demo_def demoS3_def QueryUnescape_def GetObject_def ReadAll_def
  HasPrefix_def options_def replaceExtension_def Ext_def IsPathSeparator_def slice_def
  PutObject_def uploadRequest_def Errorf_s_def Errorf_w_def

subsection \<open>The skip path\<close>

text \<open>
  Claim C1. When the key decodes, the object is fetched, read and loaded, and the loader
  name read from the image begins with \<open>heifload\<close> (the loader of the target format),
  the handler returns the status \<open>SKIPPED_ALREADY_AVIF\<close> (the specification's
  \<open>SKIPPED_ALREADY_TARGET\<close>) with the decoded key as original key and a message, and the
  storage state it leaves is the one it was given: no upload request is issued, no
  object is written and none is changed.
\<close>

theorem HandleRequest_skips_target_format:
  assumes "QueryUnescape (S3Key event) = Return (Inr srcKey)"
    and "GetObject c st (S3Bucket event) srcKey = Inr body"
    and "ReadAll body = Inr imageBuffer"
    and "NewImageFromBuffer c imageBuffer = Inr img"
    and "GetString c img ''vips-loader'' = Inr format"
    and "HasPrefix format ''heifload''"
  shows "HandleRequest c st event =
     (Return (Inr \<lparr>Status = ''SKIPPED_ALREADY_AVIF'', OriginalKey = srcKey, NewKey = '''',
                   Message = ''Image is already in AVIF format. Skipping conversion.''\<rparr>),
      st)"
  using assms(5,6) by (simp add: HandleRequest_loaded [OF assms(1-4)])

theorem HandleRequest_skips_target_format_witness:
  "QueryUnescape ''old.avif'' = Return (Inr ''old.avif'') \<and>
   GetObject demo demoS3 ''photos'' ''old.avif'' = Inr (Inr ''ftypavif-old'') \<and>
   NewImageFromBuffer demo ''ftypavif-old'' = Inr ''ftypavif-old'' \<and>
   GetString demo ''ftypavif-old'' ''vips-loader'' = Inr ''heifload_buffer'' \<and>
   HasPrefix ''heifload_buffer'' ''heifload'' \<and>
   HandleRequest demo demoS3 \<lparr>S3Bucket = ''photos'', S3Key = ''old.avif''\<rparr> =
     (Return (Inr \<lparr>Status = ''SKIPPED_ALREADY_AVIF'', OriginalKey = ''old.avif'', NewKey = '''',
                   Message = ''Image is already in AVIF format. Skipping conversion.''\<rparr>),
      demoS3) \<and>
   uploads demoS3 = []"
proof -
  let ?event = "\<lparr>S3Bucket = ''photos'', S3Key = ''old.avif''\<rparr>"
  have h1: "QueryUnescape (S3Key ?event) = Return (Inr ''old.avif'')"
    by (simp add: QueryUnescape_def)
  have h2: "GetObject demo demoS3 (S3Bucket ?event) ''old.avif'' = Inr (Inr ''ftypavif-old'')"
    by (simp add: GetObject_def demo_def demoS3_def)
  have h3: "ReadAll (Inr ''ftypavif-old'') = Inr ''ftypavif-old''"
    by (simp add: ReadAll_def)
  have h4: "NewImageFromBuffer demo ''ftypavif-old'' = Inr ''ftypavif-old''"
    by (simp add: demo_def)
  have h5: "GetString demo ''ftypavif-old'' ''vips-loader'' = Inr ''heifload_buffer''"
    by (simp add: demo_def HasPrefix_def)
  have h6: "HasPrefix ''heifload_buffer'' ''heifload''"
    by (simp add: HasPrefix_def)
  show ?thesis
    using h1 h2 h4 h5 h6 HandleRequest_skips_target_format [OF h1 h2 h3 h4 h5 h6]
    by (simp add: demoS3_def)
qed

text \<open>
  Since the skip path leaves the storage state as it was, invoking the handler again on
  the state it returned gives the same result, however often this is repeated.
\<close>

lemma HandleRequest_skip_repeated:
  assumes "QueryUnescape (S3Key event) = Return (Inr srcKey)"
    and "GetObject c st (S3Bucket event) srcKey = Inr body"
    and "ReadAll body = Inr imageBuffer"
    and "NewImageFromBuffer c imageBuffer = Inr img"
    and "GetString c img ''vips-loader'' = Inr format"
    and "HasPrefix format ''heifload''"
  shows "HandleRequest c (snd (HandleRequest c st event)) event = HandleRequest c st event"
  using assms(5,6) by (simp add: HandleRequest_loaded [OF assms(1-4)])

subsection \<open>The conversion path\<close>

text \<open>
  Claim C2. When the key decodes, the object is fetched, read and loaded, the image is
  not detected as already in the target format (the loader name is not read, or does
  not begin with \<open>heifload\<close>), and encoding and the upload succeed, the handler returns
  the status \<open>CONVERTED\<close> with the decoded key as original key and, as new key, the key
  derived from it with the extension \<open>.avif\<close>. One upload request is issued, for the
  event's bucket and the new key, with content type \<open>image/avif\<close>, the encoded buffer as
  body and its length as content length; the object stored under the new key is that
  buffer with that content type.
\<close>

theorem HandleRequest_converts:
  assumes "QueryUnescape (S3Key event) = Return (Inr srcKey)"
    and "GetObject c st (S3Bucket event) srcKey = Inr body"
    and "ReadAll body = Inr imageBuffer"
    and "NewImageFromBuffer c imageBuffer = Inr img"
    and "\<And>format. GetString c img ''vips-loader'' = Inr format \<Longrightarrow>
           \<not> HasPrefix format ''heifload''"
    and "HeifsaveBuffer c img options = Inr avifBuffer"
    and "\<And>newKey. replaceExtension srcKey ''.avif'' = Return newKey \<Longrightarrow>
           putFault c (uploadRequest event newKey avifBuffer) = None"
  shows "\<exists>newKey st'.
     replaceExtension srcKey ''.avif'' = Return newKey \<and>
     HandleRequest c st event =
       (Return (Inr \<lparr>Status = ''CONVERTED'', OriginalKey = srcKey, NewKey = newKey,
                     Message = ''''\<rparr>), st') \<and>
     uploads st' = uploads st @
       [\<lparr>Bucket = S3Bucket event, Key = newKey, Body = avifBuffer,
         ContentType = ''image/avif'', ContentLength = int (length avifBuffer),
         ChecksumAlgorithm = ''SHA256''\<rparr>] \<and>
     objects st' (S3Bucket event, newKey) =
       Some \<lparr>content = avifBuffer, contentType = ''image/avif''\<rparr>"
proof -
  obtain newKey where newKey: "replaceExtension srcKey ''.avif'' = Return newKey"
    using replaceExtension_returns by blast
  have "putFault c (uploadRequest event newKey avifBuffer) = None"
    using assms(7) newKey by blast
  then show ?thesis
    using newKey
    by (simp add: HandleRequest_encoded [OF assms(1-6) newKey] uploadRequest_def)
qed

theorem HandleRequest_converts_witness:
  "QueryUnescape ''cat+1.jpg'' = Return (Inr ''cat 1.jpg'') \<and>
   GetObject demo demoS3 ''photos'' ''cat 1.jpg'' = Inr (Inr ''JFIF-cat'') \<and>
   NewImageFromBuffer demo ''JFIF-cat'' = Inr ''JFIF-cat'' \<and>
   GetString demo ''JFIF-cat'' ''vips-loader'' = Inr ''jpegload_buffer'' \<and>
   \<not> HasPrefix ''jpegload_buffer'' ''heifload'' \<and>
   HeifsaveBuffer demo ''JFIF-cat'' options = Inr ''ftypavif:JFIF-cat'' \<and>
   replaceExtension ''cat 1.jpg'' ''.avif'' = Return ''cat 1.avif'' \<and>
   fst (HandleRequest demo demoS3 \<lparr>S3Bucket = ''photos'', S3Key = ''cat+1.jpg''\<rparr>) =
     Return (Inr \<lparr>Status = ''CONVERTED'', OriginalKey = ''cat 1.jpg'', NewKey = ''cat 1.avif'',
                  Message = ''''\<rparr>) \<and>
   uploads (snd (HandleRequest demo demoS3 \<lparr>S3Bucket = ''photos'', S3Key = ''cat+1.jpg''\<rparr>)) =
     [\<lparr>Bucket = ''photos'', Key = ''cat 1.avif'', Body = ''ftypavif:JFIF-cat'',
       ContentType = ''image/avif'', ContentLength = 17, ChecksumAlgorithm = ''SHA256''\<rparr>] \<and>
   objects (snd (HandleRequest demo demoS3 \<lparr>S3Bucket = ''photos'', S3Key = ''cat+1.jpg''\<rparr>))
     (''photos'', ''cat 1.avif'') =
     Some \<lparr>content = ''ftypavif:JFIF-cat'', contentType = ''image/avif''\<rparr>"
proof -
  let ?event = "\<lparr>S3Bucket = ''photos'', S3Key = ''cat+1.jpg''\<rparr>"
  have h1: "QueryUnescape (S3Key ?event) = Return (Inr ''cat 1.jpg'')"
    by (simp add: QueryUnescape_def)
  have h2: "GetObject demo demoS3 (S3Bucket ?event) ''cat 1.jpg'' = Inr (Inr ''JFIF-cat'')"
    by (simp add: GetObject_def demo_def demoS3_def)
  have h3: "ReadAll (Inr ''JFIF-cat'') = Inr ''JFIF-cat''"
    by (simp add: ReadAll_def)
  have h4: "NewImageFromBuffer demo ''JFIF-cat'' = Inr ''JFIF-cat''"
    by (simp add: demo_def)
  have g: "GetString demo ''JFIF-cat'' ''vips-loader'' = Inr ''jpegload_buffer''"
    by (simp add: demo_def HasPrefix_def)
  have p: "\<not> HasPrefix ''jpegload_buffer'' ''heifload''"
    by (simp add: HasPrefix_def)
  have h5: "\<And>format. GetString demo ''JFIF-cat'' ''vips-loader'' = Inr format \<Longrightarrow>
      \<not> HasPrefix format ''heifload''"
    using g p by simp
  have h6: "HeifsaveBuffer demo ''JFIF-cat'' options = Inr ''ftypavif:JFIF-cat''"
    by (simp add: demo_def HasPrefix_def)
  have h7: "\<And>newKey. replaceExtension ''cat 1.jpg'' ''.avif'' = Return newKey \<Longrightarrow>
      putFault demo (uploadRequest ?event newKey ''ftypavif:JFIF-cat'') = None"
    by (simp add: demo_def uploadRequest_def)
  have r: "replaceExtension ''cat 1.jpg'' ''.avif'' = Return ''cat 1.avif''"
    by (simp add: replaceExtension_def Ext_def IsPathSeparator_def slice_def)
  show ?thesis
    using h1 h2 h4 g p h6 r
      HandleRequest_converts [OF h1 h2 h3 h4 h5 h6 h7]
    by (auto simp: demoS3_def)
qed

subsection \<open>Failing stages\<close>

text \<open>
  Five of the six failing stages return an error built with \<^verbatim>\<open>%w\<close>: unwrapping it gives
  the stage's own error, and its message is the stage's prefix followed by that error's
  message.
\<close>

lemma Errorf_w_wraps:
  "Unwrap (Errorf_w quote prefix err) = Some err \<and>
   Error quote (Errorf_w quote prefix err) = prefix @ Error quote err"
  by (simp add: Errorf_w_def)

lemma HandleRequest_key_decode_fails:
  "QueryUnescape (S3Key event) = Return (Inl err) \<Longrightarrow>
     HandleRequest c st event =
       (Return (Inl (Errorf_w (Quote c) ''failed to decode S3 key: '' err)), st)"
  by (simp add: HandleRequest_def)

lemma HandleRequest_fetch_fails:
  "QueryUnescape (S3Key event) = Return (Inr srcKey) \<Longrightarrow>
   GetObject c st (S3Bucket event) srcKey = Inl err \<Longrightarrow>
     HandleRequest c st event =
       (Return (Inl (Errorf_w (Quote c) ''failed to get object from S3: '' err)), st)"
  by (simp add: HandleRequest_def)

lemma HandleRequest_read_fails:
  "QueryUnescape (S3Key event) = Return (Inr srcKey) \<Longrightarrow>
   GetObject c st (S3Bucket event) srcKey = Inr body \<Longrightarrow>
   ReadAll body = Inl err \<Longrightarrow>
     HandleRequest c st event =
       (Return (Inl (Errorf_w (Quote c) ''failed to read image from S3 stream: '' err)), st)"
  by (simp add: HandleRequest_def)

lemma HandleRequest_image_decode_fails:
  "QueryUnescape (S3Key event) = Return (Inr srcKey) \<Longrightarrow>
   GetObject c st (S3Bucket event) srcKey = Inr body \<Longrightarrow>
   ReadAll body = Inr imageBuffer \<Longrightarrow>
   NewImageFromBuffer c imageBuffer = Inl err \<Longrightarrow>
     HandleRequest c st event =
       (Return (Inl (Errorf_w (Quote c)
          ''failed to process image with vips from buffer: '' err)), st)"
  by (simp add: HandleRequest_def)

lemma HandleRequest_upload_fails:
  assumes "QueryUnescape (S3Key event) = Return (Inr srcKey)"
    and "GetObject c st (S3Bucket event) srcKey = Inr body"
    and "ReadAll body = Inr imageBuffer"
    and "NewImageFromBuffer c imageBuffer = Inr img"
    and "\<And>format. GetString c img ''vips-loader'' = Inr format \<Longrightarrow>
           \<not> HasPrefix format ''heifload''"
    and "HeifsaveBuffer c img options = Inr avifBuffer"
    and "replaceExtension srcKey ''.avif'' = Return newKey"
    and "putFault c (uploadRequest event newKey avifBuffer) = Some err"
  shows "fst (HandleRequest c st event) =
     Return (Inl (Errorf_w (Quote c) ''failed to upload AVIF image to S3: '' err))"
  using assms(8) by (simp add: HandleRequest_encoded [OF assms(1-7)])

text \<open>
  The encode stage builds its error with \<^verbatim>\<open>%s\<close>: the encoder's message is in the text,
  and unwrapping gives nothing.
\<close>

lemma HandleRequest_encode_fails:
  assumes "QueryUnescape (S3Key event) = Return (Inr srcKey)"
    and "GetObject c st (S3Bucket event) srcKey = Inr body"
    and "ReadAll body = Inr imageBuffer"
    and "NewImageFromBuffer c imageBuffer = Inr img"
    and "\<And>format. GetString c img ''vips-loader'' = Inr format \<Longrightarrow>
           \<not> HasPrefix format ''heifload''"
    and "HeifsaveBuffer c img options = Inl err"
  shows "\<exists>e. HandleRequest c st event = (Return (Inl e), st) \<and> Unwrap e = None \<and>
     Error (Quote c) e = ''failed to encode image to AVIF: vips_error: '' @ Error (Quote c) err"
proof -
  have "\<not> (case GetString c img ''vips-loader'' of
            Inl err \<Rightarrow> False
          | Inr format \<Rightarrow> HasPrefix format ''heifload'')"
    using assms(5) by (cases "GetString c img ''vips-loader''") simp_all
  then show ?thesis
    using assms(6) by (simp add: HandleRequest_loaded [OF assms(1-4)] Errorf_s_def)
qed

text \<open>
  Claim C4 does not hold for the encode stage. On the object \<open>bad.png\<close>, which the codec
  loads as a JPEG and cannot encode, the handler returns an error whose message names
  the stage and quotes the encoder's message, and from which nothing can be unwrapped:
  the encoder's error is not recoverable from it.
\<close>

theorem HandleRequest_encode_error_not_wrapped:
  "HeifsaveBuffer demo ''BAD-png'' options = Inl (errorString ''encoder failed'') \<and>
   HandleRequest demo demoS3 \<lparr>S3Bucket = ''photos'', S3Key = ''bad.png''\<rparr> =
     (Return (Inl (errorString ''failed to encode image to AVIF: vips_error: encoder failed'')),
      demoS3) \<and>
   Unwrap (errorString ''failed to encode image to AVIF: vips_error: encoder failed'') = None"
  by (simp add: demo_defs)

subsection \<open>When the loader name cannot be read\<close>

text \<open>
  Claim C5, as amended. When the key decodes, the object is fetched, read and loaded,
  reading the loader name fails, and encoding and the upload succeed, the handler
  returns the status \<open>CONVERTED\<close>, having issued the upload request for the encoded
  buffer: the failed read of the loader name does not stop it.
\<close>

theorem HandleRequest_metadata_failure_converts:
  assumes "QueryUnescape (S3Key event) = Return (Inr srcKey)"
    and "GetObject c st (S3Bucket event) srcKey = Inr body"
    and "ReadAll body = Inr imageBuffer"
    and "NewImageFromBuffer c imageBuffer = Inr img"
    and "GetString c img ''vips-loader'' = Inl err"
    and "HeifsaveBuffer c img options = Inr avifBuffer"
    and "\<And>newKey. replaceExtension srcKey ''.avif'' = Return newKey \<Longrightarrow>
           putFault c (uploadRequest event newKey avifBuffer) = None"
  shows "\<exists>newKey st'.
     replaceExtension srcKey ''.avif'' = Return newKey \<and>
     HandleRequest c st event =
       (Return (Inr \<lparr>Status = ''CONVERTED'', OriginalKey = srcKey, NewKey = newKey,
                     Message = ''''\<rparr>), st') \<and>
     uploads st' = uploads st @ [uploadRequest event newKey avifBuffer]"
proof -
  obtain newKey where newKey: "replaceExtension srcKey ''.avif'' = Return newKey"
    using replaceExtension_returns by blast
  have upload: "putFault c (uploadRequest event newKey avifBuffer) = None"
    using assms(7) newKey by blast
  have notTarget: "\<And>format. GetString c img ''vips-loader'' = Inr format \<Longrightarrow>
      \<not> HasPrefix format ''heifload''"
    using assms(5) by simp
  show ?thesis
    using newKey upload
    by (simp add: HandleRequest_encoded [OF assms(1-4) notTarget assms(6) newKey])
qed

theorem HandleRequest_metadata_failure_converts_witness:
  "QueryUnescape ''scan.tif'' = Return (Inr ''scan.tif'') \<and>
   GetObject demo demoS3 ''photos'' ''scan.tif'' = Inr (Inr ''RAW-scan'') \<and>
   NewImageFromBuffer demo ''RAW-scan'' = Inr ''RAW-scan'' \<and>
   GetString demo ''RAW-scan'' ''vips-loader'' = Inl (errorString ''field not found'') \<and>
   HeifsaveBuffer demo ''RAW-scan'' options = Inr ''ftypavif:RAW-scan'' \<and>
   replaceExtension ''scan.tif'' ''.avif'' = Return ''scan.avif'' \<and>
   putFault demo
     (uploadRequest \<lparr>S3Bucket = ''photos'', S3Key = ''scan.tif''\<rparr> ''scan.avif''
        ''ftypavif:RAW-scan'') = None \<and>
   fst (HandleRequest demo demoS3 \<lparr>S3Bucket = ''photos'', S3Key = ''scan.tif''\<rparr>) =
     Return (Inr \<lparr>Status = ''CONVERTED'', OriginalKey = ''scan.tif'', NewKey = ''scan.avif'',
                  Message = ''''\<rparr>)"
proof -
  let ?event = "\<lparr>S3Bucket = ''photos'', S3Key = ''scan.tif''\<rparr>"
  have h1: "QueryUnescape (S3Key ?event) = Return (Inr ''scan.tif'')"
    by (simp add: QueryUnescape_def)
  have h2: "GetObject demo demoS3 (S3Bucket ?event) ''scan.tif'' = Inr (Inr ''RAW-scan'')"
    by (simp add: GetObject_def demo_def demoS3_def)
  have h3: "ReadAll (Inr ''RAW-scan'') = Inr ''RAW-scan''"
    by (simp add: ReadAll_def)
  have h4: "NewImageFromBuffer demo ''RAW-scan'' = Inr ''RAW-scan''"
    by (simp add: demo_def)
  have h5: "GetString demo ''RAW-scan'' ''vips-loader'' = Inl (errorString ''field not found'')"
    by (simp add: demo_def HasPrefix_def)
  have h6: "HeifsaveBuffer demo ''RAW-scan'' options = Inr ''ftypavif:RAW-scan''"
    by (simp add: demo_def HasPrefix_def)
  have h7: "\<And>newKey. replaceExtension ''scan.tif'' ''.avif'' = Return newKey \<Longrightarrow>
      putFault demo (uploadRequest ?event newKey ''ftypavif:RAW-scan'') = None"
    by (simp add: demo_def uploadRequest_def)
  have r: "replaceExtension ''scan.tif'' ''.avif'' = Return ''scan.avif''"
    by (simp add: replaceExtension_def Ext_def IsPathSeparator_def slice_def)
  show ?thesis
    using h1 h2 h4 h5 h6 r h7 [OF r]
      HandleRequest_metadata_failure_converts [OF h1 h2 h3 h4 h5 h6 h7]
    by auto
qed

text \<open>
  Without the upload succeeding the claim fails: in the bucket \<open>readonly\<close> the loader
  name of \<open>scan.tif\<close> cannot be read, the image is loaded and encoded, and the handler
  returns the upload's error, not \<open>CONVERTED\<close>.
\<close>

theorem HandleRequest_metadata_failure_counterexample:
  "NewImageFromBuffer demo ''RAW-scan'' = Inr ''RAW-scan'' \<and>
   GetString demo ''RAW-scan'' ''vips-loader'' = Inl (errorString ''field not found'') \<and>
   HeifsaveBuffer demo ''RAW-scan'' options = Inr ''ftypavif:RAW-scan'' \<and>
   fst (HandleRequest demo demoS3 \<lparr>S3Bucket = ''readonly'', S3Key = ''scan.tif''\<rparr>) =
     Return (Inl (wrapError ''failed to upload AVIF image to S3: AccessDenied''
                    (errorString ''AccessDenied'')))"
  by (simp add: demo_defs)

subsection \<open>A source key that already has the target extension\<close>

text \<open>
  Claim C9. For a decoded source key that ends in \<open>.avif\<close>, the derived key is the source
  key itself. So whenever such an object is fetched, read, loaded, not skipped (the
  loader name is not read, or does not begin with \<open>heifload\<close>) and encoded, the upload
  request is issued for the event's bucket and the source key, under which the source
  object is stored; and when the upload succeeds the handler returns \<open>CONVERTED\<close> with
  the source key as new key, and the object under the source key is the encoded buffer.
\<close>

theorem HandleRequest_overwrites_source:
  assumes "HasSuffix srcKey ''.avif''"
    and "QueryUnescape (S3Key event) = Return (Inr srcKey)"
    and "GetObject c st (S3Bucket event) srcKey = Inr body"
    and "ReadAll body = Inr imageBuffer"
    and "NewImageFromBuffer c imageBuffer = Inr img"
    and "\<And>format. GetString c img ''vips-loader'' = Inr format \<Longrightarrow>
           \<not> HasPrefix format ''heifload''"
    and "HeifsaveBuffer c img options = Inr avifBuffer"
  shows "replaceExtension srcKey ''.avif'' = Return srcKey \<and>
     (\<exists>obj. objects st (S3Bucket event, srcKey) = Some obj) \<and>
     uploads (snd (HandleRequest c st event)) = uploads st @
       [\<lparr>Bucket = S3Bucket event, Key = srcKey, Body = avifBuffer,
         ContentType = ''image/avif'', ContentLength = int (length avifBuffer),
         ChecksumAlgorithm = ''SHA256''\<rparr>] \<and>
     (putFault c (uploadRequest event srcKey avifBuffer) = None \<longrightarrow>
        fst (HandleRequest c st event) =
          Return (Inr \<lparr>Status = ''CONVERTED'', OriginalKey = srcKey, NewKey = srcKey,
                       Message = ''''\<rparr>) \<and>
        objects (snd (HandleRequest c st event)) (S3Bucket event, srcKey) =
          Some \<lparr>content = avifBuffer, contentType = ''image/avif''\<rparr>)"
proof -
  have same: "replaceExtension srcKey ''.avif'' = Return srcKey"
    using assms(1) by (rule replaceExtension_avif)
  have stored: "\<exists>obj. objects st (S3Bucket event, srcKey) = Some obj"
    using assms(3) by (rule GetObject_stored)
  have run: "HandleRequest c st event =
     (case putFault c (uploadRequest event srcKey avifBuffer) of
        Some err \<Rightarrow>
          (Return (Inl (Errorf_w (Quote c) ''failed to upload AVIF image to S3: '' err)),
           st\<lparr>uploads := uploads st @ [uploadRequest event srcKey avifBuffer]\<rparr>)
      | None \<Rightarrow>
          (Return (Inr \<lparr>Status = ''CONVERTED'', OriginalKey = srcKey, NewKey = srcKey,
                        Message = ''''\<rparr>),
           st\<lparr>objects := (objects st)((S3Bucket event, srcKey) \<mapsto>
                  \<lparr>content = avifBuffer, contentType = ''image/avif''\<rparr>),
              uploads := uploads st @ [uploadRequest event srcKey avifBuffer]\<rparr>))"
    by (rule HandleRequest_encoded [OF assms(2-7) same])
  have "uploads (snd (HandleRequest c st event)) =
      uploads st @ [uploadRequest event srcKey avifBuffer]"
    unfolding run by (simp split: option.split)
  moreover have "putFault c (uploadRequest event srcKey avifBuffer) = None \<longrightarrow>
        fst (HandleRequest c st event) =
          Return (Inr \<lparr>Status = ''CONVERTED'', OriginalKey = srcKey, NewKey = srcKey,
                       Message = ''''\<rparr>) \<and>
        objects (snd (HandleRequest c st event)) (S3Bucket event, srcKey) =
          Some \<lparr>content = avifBuffer, contentType = ''image/avif''\<rparr>"
    unfolding run by simp
  ultimately show ?thesis
    using same stored by (simp add: uploadRequest_def)
qed

theorem HandleRequest_overwrites_source_witness:
  "HasSuffix ''new.avif'' ''.avif'' \<and>
   QueryUnescape ''new.avif'' = Return (Inr ''new.avif'') \<and>
   GetObject demo demoS3 ''photos'' ''new.avif'' = Inr (Inr ''JFIF-new'') \<and>
   objects demoS3 (''photos'', ''new.avif'') =
     Some \<lparr>content = ''JFIF-new'', contentType = ''image/avif''\<rparr> \<and>
   NewImageFromBuffer demo ''JFIF-new'' = Inr ''JFIF-new'' \<and>
   GetString demo ''JFIF-new'' ''vips-loader'' = Inr ''jpegload_buffer'' \<and>
   \<not> HasPrefix ''jpegload_buffer'' ''heifload'' \<and>
   HeifsaveBuffer demo ''JFIF-new'' options = Inr ''ftypavif:JFIF-new'' \<and>
   putFault demo
     (uploadRequest \<lparr>S3Bucket = ''photos'', S3Key = ''new.avif''\<rparr> ''new.avif''
        ''ftypavif:JFIF-new'') = None \<and>
   replaceExtension ''new.avif'' ''.avif'' = Return ''new.avif'' \<and>
   fst (HandleRequest demo demoS3 \<lparr>S3Bucket = ''photos'', S3Key = ''new.avif''\<rparr>) =
     Return (Inr \<lparr>Status = ''CONVERTED'', OriginalKey = ''new.avif'', NewKey = ''new.avif'',
                  Message = ''''\<rparr>) \<and>
   objects (snd (HandleRequest demo demoS3 \<lparr>S3Bucket = ''photos'', S3Key = ''new.avif''\<rparr>))
     (''photos'', ''new.avif'') =
     Some \<lparr>content = ''ftypavif:JFIF-new'', contentType = ''image/avif''\<rparr>"
proof -
  let ?event = "\<lparr>S3Bucket = ''photos'', S3Key = ''new.avif''\<rparr>"
  have h0: "HasSuffix ''new.avif'' ''.avif''"
    by (simp add: HasSuffix_def)
  have h1: "QueryUnescape (S3Key ?event) = Return (Inr ''new.avif'')"
    by (simp add: QueryUnescape_def)
  have h2: "GetObject demo demoS3 (S3Bucket ?event) ''new.avif'' = Inr (Inr ''JFIF-new'')"
    by (simp add: GetObject_def demo_def demoS3_def)
  have h3: "ReadAll (Inr ''JFIF-new'') = Inr ''JFIF-new''"
    by (simp add: ReadAll_def)
  have h4: "NewImageFromBuffer demo ''JFIF-new'' = Inr ''JFIF-new''"
    by (simp add: demo_def)
  have g: "GetString demo ''JFIF-new'' ''vips-loader'' = Inr ''jpegload_buffer''"
    by (simp add: demo_def HasPrefix_def)
  have p: "\<not> HasPrefix ''jpegload_buffer'' ''heifload''"
    by (simp add: HasPrefix_def)
  have h5: "\<And>format. GetString demo ''JFIF-new'' ''vips-loader'' = Inr format \<Longrightarrow>
      \<not> HasPrefix format ''heifload''"
    using g p by simp
  have h6: "HeifsaveBuffer demo ''JFIF-new'' options = Inr ''ftypavif:JFIF-new''"
    by (simp add: demo_def HasPrefix_def)
  have u: "putFault demo (uploadRequest ?event ''new.avif'' ''ftypavif:JFIF-new'') = None"
    by (simp add: demo_def uploadRequest_def)
  have o: "objects demoS3 (''photos'', ''new.avif'') =
      Some \<lparr>content = ''JFIF-new'', contentType = ''image/avif''\<rparr>"
    by (simp add: demoS3_def)
  show ?thesis
    using h0 h1 h2 o h4 g p h6 u
      HandleRequest_overwrites_source [OF h0 h1 h2 h3 h4 h5 h6]
    by simp
qed

end
